theory Spec2Isabelle
  imports
    Main
    "HOL-Library.Sublist"
    "HOL-Library.Char_ord"
    "HOL-Library.List_Lexorder"
    "HOL-Library.AList"
begin

text \<open>
  The \<^verbatim>\<open>Document\<close> class of django-opensearch-dsl (\<^verbatim>\<open>documents.py\<close>): the naming and
  listing of the generations of an index, the switch of the alias from one generation to
  the next, the paginated reading of the records, the building of bulk actions and their
  submission. The search engine, its client and the relational layer are outside that
  file; they appear here as explicit state with the operations the class calls.
\<close>

section \<open>Index names\<close>

text \<open>
  \<^verbatim>\<open>Document.VERSION_NAME_SEPARATOR\<close>, the separator between the base name of a document's
  index and the suffix of one concrete generation.
\<close>

definition VERSION_NAME_SEPARATOR :: string where
  "VERSION_NAME_SEPARATOR = ''--''"

text \<open>
  Python's truth test on an optional string: \<^verbatim>\<open>None\<close> and the empty string are false.
\<close>

fun truthy :: "string option \<Rightarrow> bool" where
  "truthy None = False"
| "truthy (Some s) = (s \<noteq> [])"

text \<open>
  \<^verbatim>\<open>Document.get_index_name(cls, suffix=None)\<close>; the first argument is
  \<^verbatim>\<open>cls._index._name\<close>, the base name.
\<close>

definition get_index_name :: "string \<Rightarrow> string option \<Rightarrow> string" where
  "get_index_name name sfx =
     (if truthy sfx then name @ VERSION_NAME_SEPARATOR @ the sfx else name)"

section \<open>The search engine, as the index lifecycle sees it\<close>

text \<open>
  The exceptions of the search-engine client that the lifecycle operations can meet.
\<close>

datatype error = NotFoundError | RequestError | BulkIndexError | ExtractionError string

text \<open>
  One entry of the body of an alias update: \<^verbatim>\<open>{"add": {"index": i, "alias": a}}\<close> or
  \<^verbatim>\<open>{"remove": {"index": i, "alias": a}}\<close>.
\<close>

datatype alias_action = Add (action_index: string) (action_alias: string)
  | Remove (action_index: string) (action_alias: string)

fun is_remove :: "alias_action \<Rightarrow> bool" where
  "is_remove (Remove _ _) = True"
| "is_remove (Add _ _) = False"

text \<open>The state-changing requests that reach the engine, in the order they are sent.\<close>

datatype request = CreateIndex string | DeleteIndex string | UpdateAliases "alias_action list"

text \<open>
  The engine holds a dictionary from the names of its concrete indices to the aliases each one
  carries (an association list read with \<open>map_of\<close>), and the model keeps the requests it
  has received.
\<close>

record cluster =
  indices :: "(string \<times> string list) list"
  requests :: "request list"

definition index_names :: "cluster \<Rightarrow> string list" where
  "index_names c = remdups (map fst (indices c))"

definition aliases_of :: "cluster \<Rightarrow> string \<Rightarrow> string list" where
  "aliases_of c n = (case map_of (indices c) n of None \<Rightarrow> [] | Some as \<Rightarrow> as)"

definition is_alias :: "cluster \<Rightarrow> string \<Rightarrow> bool" where
  "is_alias c a = list_ex (\<lambda>n. a \<in> set (aliases_of c n)) (index_names c)"

text \<open>
  Modelled from the spec: the search-engine client's wildcard expressions, used by its index
  listing by name pattern (section 6, (b)). \<open>*\<close> stands for any run of characters, every
  other character for itself.
\<close>

fun glob_match :: "string \<Rightarrow> string \<Rightarrow> bool" where
  "glob_match [] s = (s = [])"
| "glob_match (p # ps) [] = (p = CHR ''*'' \<and> glob_match ps [])"
| "glob_match (p # ps) (c # cs) =
     (if p = CHR ''*'' then glob_match ps (c # cs) \<or> glob_match (p # ps) cs
      else p = c \<and> glob_match ps cs)"

text \<open>
  Modelled from the spec: the search-engine client's index listing by name pattern
  (\<^verbatim>\<open>indices.get(pattern).keys()\<close>): the names of the concrete indices that match.
\<close>

definition indices_get :: "cluster \<Rightarrow> string \<Rightarrow> string list" where
  "indices_get c pattern = filter (glob_match pattern) (index_names c)"

text \<open>
  Modelled from the spec: the search-engine client's existence check (section 6, (a);
  \<^verbatim>\<open>Index.exists()\<close>). As in the engine, a name exists when it names a concrete index or
  an alias.
\<close>

definition indices_exists :: "cluster \<Rightarrow> string \<Rightarrow> bool" where
  "indices_exists c n = (n \<in> set (index_names c) \<or> is_alias c n)"

text \<open>
  Modelled from the spec: \<^verbatim>\<open>Index(n).exists_alias(name=a)\<close>: the concrete index \<open>n\<close>
  carries the alias \<open>a\<close>.
\<close>

definition exists_alias :: "cluster \<Rightarrow> string \<Rightarrow> string \<Rightarrow> bool" where
  "exists_alias c n a = (a \<in> set (aliases_of c n))"

text \<open>
  Modelled from the spec: \<^verbatim>\<open>Index.save()\<close> of the DSL layer, which \<^verbatim>\<open>super().init\<close> calls:
  the index is created when its name does not exist yet; mappings and settings are not part
  of the model, so saving an existing index changes nothing.
\<close>

definition index_save :: "string \<Rightarrow> cluster \<Rightarrow> cluster" where
  "index_save n c =
     (if indices_exists c n then c
      else c\<lparr>indices := indices c @ [(n, [])], requests := requests c @ [CreateIndex n]\<rparr>)"

text \<open>
  Modelled from the spec: index deletion (section 6, (a); \<^verbatim>\<open>Index.delete()\<close>). Only a
  concrete index can be deleted: the engine refuses to delete through an alias, and a name
  it does not know is not found. The request is recorded either way.
\<close>

definition index_delete :: "string \<Rightarrow> cluster \<Rightarrow> error option \<times> cluster" where
  "index_delete n c =
     (let c' = c\<lparr>requests := requests c @ [DeleteIndex n]\<rparr>
      in if n \<in> set (index_names c)
         then (None, c'\<lparr>indices := filter (\<lambda>(m, as). m \<noteq> n) (indices c)\<rparr>)
         else if is_alias c n then (Some RequestError, c')
         else (Some NotFoundError, c'))"

text \<open>
  Modelled from the spec: one action of the atomic multi-action alias update (section 6,
  (c)), applied to the engine's dictionary. The index must be a concrete index; an alias
  to remove must be on it; an alias to add must not be the name of a concrete index.
\<close>

fun apply_alias_action ::
  "alias_action \<Rightarrow> (string \<times> string list) list \<Rightarrow> error + (string \<times> string list) list"
where
  "apply_alias_action (Add i a) idx =
     (if i \<notin> fst ` set idx then Inl NotFoundError
      else if a \<in> fst ` set idx then Inl RequestError
      else Inr (map (\<lambda>(m, as). if m = i then (m, List.insert a as) else (m, as)) idx))"
| "apply_alias_action (Remove i a) idx =
     (if i \<notin> fst ` set idx then Inl NotFoundError
      else if a \<notin> set (case map_of idx i of None \<Rightarrow> [] | Some as \<Rightarrow> as) then Inl NotFoundError
      else Inr (map (\<lambda>(m, as). if m = i then (m, removeAll a as) else (m, as)) idx))"

text \<open>
  Modelled from the spec: the actions of one alias update, applied in order; the first one
  that fails ends the update.
\<close>

fun apply_alias_actions ::
  "alias_action list \<Rightarrow> (string \<times> string list) list \<Rightarrow> error + (string \<times> string list) list"
where
  "apply_alias_actions [] idx = Inr idx"
| "apply_alias_actions (a # as) idx =
     (case apply_alias_action a idx of
        Inl e \<Rightarrow> Inl e
      | Inr idx' \<Rightarrow> apply_alias_actions as idx')"

text \<open>
  Modelled from the spec: \<^verbatim>\<open>indices.update_aliases(body={"actions": actions})\<close>,
  the atomic alias update: either every action applies, or the engine raises and its
  dictionary is unchanged. The request is recorded either way.
\<close>

definition update_aliases :: "alias_action list \<Rightarrow> cluster \<Rightarrow> error option \<times> cluster" where
  "update_aliases actions c =
     (let c' = c\<lparr>requests := requests c @ [UpdateAliases actions]\<rparr>
      in case apply_alias_actions actions (indices c) of
           Inl e \<Rightarrow> (Some e, c')
         | Inr idx \<Rightarrow> (None, c'\<lparr>indices := idx\<rparr>))"

section \<open>Generations of a document's index\<close>

text \<open>\<^verbatim>\<open>Document.get_all_indices\<close>: the names of the listed indices, sorted.\<close>

definition get_all_indices :: "string \<Rightarrow> cluster \<Rightarrow> string list" where
  "get_all_indices name c = sort (indices_get c (name @ VERSION_NAME_SEPARATOR @ ''*''))"

text \<open>
  \<^verbatim>\<open>Document.get_active_index\<close>: the first listed index that carries the alias, or
  \<^verbatim>\<open>None\<close> when the loop ends without returning.
\<close>

fun first_with_alias :: "cluster \<Rightarrow> string \<Rightarrow> string list \<Rightarrow> string option" where
  "first_with_alias c name [] = None"
| "first_with_alias c name (index # rest) =
     (if exists_alias c index name then Some index else first_with_alias c name rest)"

definition get_active_index :: "string \<Rightarrow> cluster \<Rightarrow> string option" where
  "get_active_index name c = first_with_alias c name (get_all_indices name c)"

text \<open>
  The list \<^verbatim>\<open>actions_on_aliases\<close> that \<^verbatim>\<open>Document.migrate\<close> builds before it touches
  the engine.
\<close>

definition actions_on_aliases :: "string \<Rightarrow> string option \<Rightarrow> cluster \<Rightarrow> alias_action list" where
  "actions_on_aliases name sfx c =
     (let index_name = get_index_name name sfx;
          actions = [Add index_name name]
      in case get_active_index name c of
           Some active_index \<Rightarrow> Remove active_index name # actions
         | None \<Rightarrow> actions)"

text \<open>
  \<^verbatim>\<open>Document.migrate(cls, suffix)\<close>. The result pairs the exception raised, if any, with the
  engine as the call leaves it.
\<close>

definition migrate :: "string \<Rightarrow> string option \<Rightarrow> cluster \<Rightarrow> error option \<times> cluster" where
  "migrate name sfx c =
     (let actions = actions_on_aliases name sfx c
      in if length actions = 1 \<and> indices_exists c name
         then (case index_delete name c of
                 (Some e, c') \<Rightarrow> (Some e, c')
               | (None, c') \<Rightarrow> update_aliases actions c')
         else update_aliases actions c)"

text \<open>
  \<^verbatim>\<open>Document.init(cls, suffix=None)\<close>. \<open>now\<close> is the reading of the clock, already
  formatted by \<^verbatim>\<open>strftime("%Y%m%d%H%M%S%f")\<close>.
\<close>

definition init :: "string \<Rightarrow> string \<Rightarrow> string option \<Rightarrow> cluster \<Rightarrow> error option \<times> cluster" where
  "init now name sfx c =
     (let sfx' = (if truthy sfx then sfx else Some now);
          index_name = get_index_name name sfx';
          c1 = index_save index_name c
      in if \<not> indices_exists c1 name then migrate name sfx' c1 else (None, c1))"

text \<open>The generations that carry the alias \<open>name\<close>.\<close>

definition alias_holders :: "string \<Rightarrow> cluster \<Rightarrow> string list" where
  "alias_holders name c = filter (\<lambda>n. exists_alias c n name) (get_all_indices name c)"

text \<open>The alias batches among the requests the engine has received, in order.\<close>

fun batches :: "request list \<Rightarrow> alias_action list list" where
  "batches [] = []"
| "batches (UpdateAliases as # rs) = as # batches rs"
| "batches (CreateIndex _ # rs) = batches rs"
| "batches (DeleteIndex _ # rs) = batches rs"

section \<open>Documents and records\<close>

text \<open>
  An instance of the Django model behind a document: its primary key and the rest of its
  columns.
\<close>

record 'a model =
  pk :: int
  columns :: 'a

text \<open>
  What \<^verbatim>\<open>Document.update\<close> receives as \<^verbatim>\<open>thing\<close>: one model instance
  (\<^verbatim>\<open>isinstance(thing, models.Model)\<close>) or an iterable of them.
\<close>

datatype 'a thing = Model "'a model" | Iterable "'a model list"

text \<open>
  The parts of a document object that the bulk operations read: its class, the name of its
  index (\<^verbatim>\<open>_index._name\<close>), \<^verbatim>\<open>django.queryset_pagination\<close>, the
  \<^verbatim>\<open>auto_refresh\<close> attribute of its \<^verbatim>\<open>Index\<close> class when it has one, the process-wide
  \<^verbatim>\<open>DODConfig.auto_refresh_enabled()\<close>, the compiled preparers \<^verbatim>\<open>_prepared_fields\<close> (name
  and callable; the field object between them is not read by \<^verbatim>\<open>prepare\<close>), and the two
  overridable hooks. A preparer is user code and may raise.
\<close>

record ('a, 'i, 'v) document =
  doc_class :: string
  base_name :: string
  queryset_pagination :: nat
  index_auto_refresh :: "bool option"
  auto_refresh_enabled :: bool
  prepared_fields :: "(string \<times> ('a model \<Rightarrow> error + 'v)) list"
  generate_id :: "'a model \<Rightarrow> 'i"
  should_index_object :: "'a model \<Rightarrow> bool"

text \<open>\<^verbatim>\<open>Document.generate_id\<close> as the class defines it: the primary key.\<close>

definition default_generate_id :: "'a model \<Rightarrow> int" where
  "default_generate_id object_instance = pk object_instance"

text \<open>\<^verbatim>\<open>Document.should_index_object\<close> as the class defines it.\<close>

definition default_should_index_object :: "'a model \<Rightarrow> bool" where
  "default_should_index_object obj = True"

text \<open>
  \<^verbatim>\<open>Document.prepare\<close>: the dictionary comprehension over \<^verbatim>\<open>_prepared_fields\<close>, in order;
  a later entry for the same name replaces the value. The first preparer that raises ends it.
\<close>

fun prepare_fields ::
  "(string \<times> ('r \<Rightarrow> error + 'v)) list \<Rightarrow> 'r \<Rightarrow> (string \<times> 'v) list \<Rightarrow> error + (string \<times> 'v) list"
where
  "prepare_fields [] obj data = Inr data"
| "prepare_fields ((name, prep_func) # rest) obj data =
     (case prep_func obj of
        Inl e \<Rightarrow> Inl e
      | Inr v \<Rightarrow> prepare_fields rest obj (AList.update name v data))"

definition prepare :: "('a, 'i, 'v) document \<Rightarrow> 'a model \<Rightarrow> error + (string \<times> 'v) list" where
  "prepare doc obj = prepare_fields (prepared_fields doc) obj []"

section \<open>Bulk actions\<close>

text \<open>The values found in an action descriptor.\<close>

datatype ('i, 'v) cell = PyNone | Str string | Ident 'i | Mapping "(string \<times> 'v) list"

text \<open>An action descriptor is a dictionary, kept in the order it was written.\<close>

type_synonym ('i, 'v) descriptor = "(string \<times> ('i, 'v) cell) list"

text \<open>\<^verbatim>\<open>Document._prepare_action\<close>.\<close>

definition prepare_action ::
  "('a, 'i, 'v) document \<Rightarrow> 'a model \<Rightarrow> string \<Rightarrow> string option \<Rightarrow> error + ('i, 'v) descriptor"
where
  "prepare_action doc object_instance action index_name =
     (let head = [(''_op_type'', Str action),
                  (''_index'', Str (if truthy index_name then the index_name else base_name doc)),
                  (''_id'', Ident (generate_id doc object_instance))];
          key = (if action \<noteq> ''update'' then ''_source'' else ''doc'')
      in if action \<noteq> ''delete''
         then (case prepare doc object_instance of
                 Inl e \<Rightarrow> Inl e
               | Inr data \<Rightarrow> Inr (head @ [(key, Mapping data)]))
         else Inr (head @ [(key, PyNone)]))"

text \<open>
  A generator that has been set up but not run: what it will yield, and how it ends, by
  running out or by raising.
\<close>

datatype 'x gen = Stop | Raise error | Yield 'x "'x gen"

fun gen_of_list :: "'x list \<Rightarrow> 'x gen" where
  "gen_of_list [] = Stop"
| "gen_of_list (x # xs) = Yield x (gen_of_list xs)"

text \<open>The items a generator yields before it ends.\<close>

fun yielded :: "'x gen \<Rightarrow> 'x list" where
  "yielded Stop = []"
| "yielded (Raise e) = []"
| "yielded (Yield x g) = x # yielded g"

text \<open>The exception that ends a generator, if one does.\<close>

fun raised :: "'x gen \<Rightarrow> error option" where
  "raised Stop = None"
| "raised (Raise e) = Some e"
| "raised (Yield x g) = raised g"

text \<open>
  The generator that hands out the results of a list in order and raises at the first
  error among them.
\<close>

fun gen_of_results :: "(error + 'x) list \<Rightarrow> 'x gen" where
  "gen_of_results [] = Stop"
| "gen_of_results (Inl e # rs) = Raise e"
| "gen_of_results (Inr x # rs) = Yield x (gen_of_results rs)"

text \<open>\<^verbatim>\<open>Document._get_actions\<close>.\<close>

fun get_actions ::
  "('a, 'i, 'v) document \<Rightarrow> 'a model list \<Rightarrow> string \<Rightarrow> string option \<Rightarrow> ('i, 'v) descriptor gen"
where
  "get_actions doc [] action index_name = Stop"
| "get_actions doc (object_instance # object_list) action index_name =
     (if action = ''delete'' \<or> should_index_object doc object_instance
      then (case prepare_action doc object_instance action index_name of
              Inl e \<Rightarrow> Raise e
            | Inr d \<Rightarrow> Yield d (get_actions doc object_list action index_name))
      else get_actions doc object_list action index_name)"

section \<open>Bulk submission\<close>

text \<open>
  The keyword arguments that reach the bulk helpers of the client: \<^verbatim>\<open>refresh\<close> and
  \<^verbatim>\<open>chunk_size\<close>, each possibly absent.
\<close>

record bulk_kwargs =
  kw_refresh :: "bool option"
  kw_chunk_size :: "nat option"

text \<open>The response of a bulk submission: the number of successes and the failed items.\<close>

type_synonym ('i, 'v) response = "nat \<times> ('i, 'v) descriptor list"

text \<open>
  What a listener of \<^verbatim>\<open>post_index\<close> receives: \<^verbatim>\<open>sender\<close>, \<^verbatim>\<open>instance\<close>,
  \<^verbatim>\<open>actions\<close> and \<^verbatim>\<open>response\<close>.
\<close>

record ('a, 'i, 'v) signal =
  sig_sender :: string
  sig_instance :: "('a, 'i, 'v) document"
  sig_actions :: "('i, 'v) descriptor gen"
  sig_response :: "('i, 'v) response"

text \<open>
  The surroundings of a bulk submission: the actions the engine has received, each with the
  refresh policy it came under, the engine's verdict on an item, and the signals sent.
\<close>

record ('a, 'i, 'v) world =
  received :: "(('i, 'v) descriptor \<times> bool option) list"
  accepts :: "('i, 'v) descriptor \<Rightarrow> bool"
  sent :: "('a, 'i, 'v) signal list"

text \<open>
  Modelled from the spec: the client's sequential bulk submission (section 6, (d)): the
  whole action stream goes to the engine as one call, and the structured response counts
  the successes and lists the failed items. An action stream that raises is not submitted.
\<close>

definition helpers_bulk ::
  "('i, 'v) descriptor gen \<Rightarrow> bulk_kwargs \<Rightarrow> ('a, 'i, 'v) world
     \<Rightarrow> (error + ('i, 'v) response) \<times> ('a, 'i, 'v) world"
where
  "helpers_bulk actions kwargs w =
     (case raised actions of
        Some e \<Rightarrow> (Inl e, w)
      | None \<Rightarrow>
          (Inr (length (filter (accepts w) (yielded actions)),
                filter (\<lambda>d. \<not> accepts w d) (yielded actions)),
           w\<lparr>received := received w @ map (\<lambda>d. (d, kw_refresh kwargs)) (yielded actions)\<rparr>))"

text \<open>
  Modelled from the spec: the client's parallel bulk submission (section 6, (e)), as
  \<^verbatim>\<open>Document.parallel_bulk\<close> calls it: with the defaults of the helper apart from
  \<^verbatim>\<open>chunk_size\<close> and \<^verbatim>\<open>refresh\<close>, so that an item the engine refuses raises. Calling
  it submits nothing: it returns a lazy iterator over the per-item results, which holds the
  actions not yet taken from the stream and the results of the last chunk that have not
  been handed out yet. The chunks go to the engine in order, one at a time; the worker
  threads behind the helper are not modelled.
\<close>

datatype ('i, 'v) lazy_results =
  LazyResults (pending: "('i, 'v) descriptor gen")
    (buffered: "(bool \<times> ('i, 'v) descriptor) list")
    (results_chunk_size: nat) (results_refresh: "bool option")

definition helpers_parallel_bulk ::
  "('i, 'v) descriptor gen \<Rightarrow> bulk_kwargs \<Rightarrow> ('i, 'v) lazy_results"
where
  "helpers_parallel_bulk actions kwargs =
     LazyResults actions [] (case kw_chunk_size kwargs of None \<Rightarrow> 500 | Some n \<Rightarrow> n)
       (kw_refresh kwargs)"

text \<open>
  Modelled from the spec: how the helper cuts the action stream into chunks. Actions are
  collected until the chunk holds \<open>chunk_size\<close> of them and one more action arrives, or
  until the stream ends; a stream that raises takes the chunk being collected with it. The
  result is the chunk, empty at the end of the stream, and the rest of the stream.
\<close>

fun next_chunk :: "nat \<Rightarrow> 'x list \<Rightarrow> 'x gen \<Rightarrow> (error + 'x list) \<times> 'x gen" where
  "next_chunk n bulk_actions Stop = (Inr bulk_actions, Stop)"
| "next_chunk n bulk_actions (Raise e) = (Inl e, Raise e)"
| "next_chunk n bulk_actions (Yield a g) =
     (if bulk_actions \<noteq> [] \<and> length bulk_actions = n then (Inr bulk_actions, Yield a g)
      else next_chunk n (bulk_actions @ [a]) g)"

text \<open>
  Modelled from the spec: one step of that iterator. A result of the last chunk that is
  still waiting is handed out as it is. Otherwise the next chunk is taken from the stream
  and submitted as one request: when the engine accepts every item of it, the first result
  is handed out and the others wait; when it refuses one, \<^verbatim>\<open>BulkIndexError\<close> is raised.
  At the end of the stream the iterator is exhausted (\<open>Inr None\<close>).
\<close>

definition next_result ::
  "('i, 'v) lazy_results \<Rightarrow> ('a, 'i, 'v) world
     \<Rightarrow> (error + ((bool \<times> ('i, 'v) descriptor) \<times> ('i, 'v) lazy_results) option)
        \<times> ('a, 'i, 'v) world"
where
  "next_result it w =
     (case buffered it of
        result # waiting \<Rightarrow>
          (Inr (Some (result,
             LazyResults (pending it) waiting (results_chunk_size it) (results_refresh it))), w)
      | [] \<Rightarrow>
          (case next_chunk (results_chunk_size it) [] (pending it) of
             (Inl e, g) \<Rightarrow> (Inl e, w)
           | (Inr [], g) \<Rightarrow> (Inr None, w)
           | (Inr (a # as), g) \<Rightarrow>
               (let w' = w\<lparr>received :=
                           received w @ map (\<lambda>d. (d, results_refresh it)) (a # as)\<rparr>
                in if list_all (accepts w) (a # as)
                   then (Inr (Some ((True, a),
                           LazyResults g (map (Pair True) as) (results_chunk_size it)
                             (results_refresh it))), w')
                   else (Inl BulkIndexError, w'))))"

text \<open>
  \<^verbatim>\<open>deque(iterator, maxlen=0)\<close>: ask for results until the iterator is exhausted or
  raises, keeping none of them.
\<close>

function deque0 ::
  "('i, 'v) lazy_results \<Rightarrow> ('a, 'i, 'v) world \<Rightarrow> error option \<times> ('a, 'i, 'v) world"
where
  "deque0 it w =
     (case next_result it w of
        (Inl e, w') \<Rightarrow> (Some e, w')
      | (Inr None, w') \<Rightarrow> (None, w')
      | (Inr (Some (result, it')), w') \<Rightarrow> deque0 it' w')"
  by pat_completeness auto
termination
proof (relation "measure (\<lambda>(it, w). 2 * size (pending it) + length (buffered it))", goal_cases)
  case 1
  show ?case by simp
next
  case (2 it w x w' y z result it')
  then have step: "next_result it w = (Inr (Some (result, it')), w')"
    by simp
  have chunk: "length ch + size g' = length acc + size g"
    if "next_chunk n acc g = (Inr ch, g')" for n and acc ch :: "'x list" and g g'
    using that by (induction g arbitrary: acc) (auto split: if_splits)
  have "2 * size (pending it') + length (buffered it') < 2 * size (pending it) + length (buffered it)"
  proof (cases "buffered it")
    case (Cons r waiting)
    with step show ?thesis
      by (auto simp: next_result_def)
  next
    case Nil
    obtain res g where nc: "next_chunk (results_chunk_size it) [] (pending it) = (res, g)"
      by (cases "next_chunk (results_chunk_size it) [] (pending it)")
    with step Nil obtain a as where res: "res = Inr (a # as)"
      and it': "it' = LazyResults g (map (Pair True) as) (results_chunk_size it) (results_refresh it)"
      by (auto simp: next_result_def Let_def split: sum.splits list.splits if_splits)
    from chunk [of "results_chunk_size it" "[]" "pending it" "a # as" g] nc res
    have "Suc (length as) + size g = size (pending it)"
      by simp
    with it' Nil show ?thesis
      by simp
  qed
  then show ?case
    by simp
qed

declare deque0.simps [simp del]

text \<open>\<^verbatim>\<open>Document.bulk\<close>. A submission that raises sends no signal.\<close>

definition bulk ::
  "('a, 'i, 'v) document \<Rightarrow> ('i, 'v) descriptor gen \<Rightarrow> bulk_kwargs \<Rightarrow> ('a, 'i, 'v) world
     \<Rightarrow> (error + ('i, 'v) response) \<times> ('a, 'i, 'v) world"
where
  "bulk doc actions kwargs w =
     (case helpers_bulk actions kwargs w of
        (Inl e, w') \<Rightarrow> (Inl e, w')
      | (Inr response, w') \<Rightarrow>
          (Inr response,
           w'\<lparr>sent := sent w' @
              [\<lparr>sig_sender = doc_class doc, sig_instance = doc,
                sig_actions = actions, sig_response = response\<rparr>]\<rparr>))"

text \<open>\<^verbatim>\<open>Document.parallel_bulk\<close>.\<close>

definition parallel_bulk ::
  "('a, 'i, 'v) document \<Rightarrow> ('i, 'v) descriptor gen \<Rightarrow> bulk_kwargs \<Rightarrow> ('a, 'i, 'v) world
     \<Rightarrow> (error + ('i, 'v) response) \<times> ('a, 'i, 'v) world"
where
  "parallel_bulk doc actions kwargs w =
     (let kwargs' = (case kw_chunk_size kwargs of
                       None \<Rightarrow> kwargs\<lparr>kw_chunk_size := Some (queryset_pagination doc)\<rparr>
                     | Some n \<Rightarrow> kwargs);
          bulk_actions = helpers_parallel_bulk actions kwargs'
      in case deque0 bulk_actions w of
           (Some e, w') \<Rightarrow> (Inl e, w')
         | (None, w') \<Rightarrow> (Inr (1, []), w'))"

text \<open>\<^verbatim>\<open>Document._bulk\<close>.\<close>

definition bulk_switch ::
  "('a, 'i, 'v) document \<Rightarrow> ('i, 'v) descriptor gen \<Rightarrow> bool \<Rightarrow> bulk_kwargs
     \<Rightarrow> ('a, 'i, 'v) world \<Rightarrow> (error + ('i, 'v) response) \<times> ('a, 'i, 'v) world"
where
  "bulk_switch doc actions in_parallel kwargs w =
     (if in_parallel then parallel_bulk doc actions kwargs w else bulk doc actions kwargs w)"

text \<open>
  The keyword arguments of \<^verbatim>\<open>Document.update\<close>: \<^verbatim>\<open>index_suffix\<close>, \<^verbatim>\<open>refresh\<close>, and
  what travels on in \<^verbatim>\<open>**kwargs\<close>: \<^verbatim>\<open>parallel\<close> and \<^verbatim>\<open>chunk_size\<close>.
\<close>

record update_kwargs =
  index_suffix :: "string option"
  refresh_arg :: "bool option"
  parallel_arg :: bool
  chunk_size_arg :: "nat option"

text \<open>\<^verbatim>\<open>Document.update\<close>.\<close>

definition update ::
  "('a, 'i, 'v) document \<Rightarrow> 'a thing \<Rightarrow> string \<Rightarrow> update_kwargs \<Rightarrow> ('a, 'i, 'v) world
     \<Rightarrow> (error + ('i, 'v) response) \<times> ('a, 'i, 'v) world"
where
  "update doc thing action kwargs w =
     (let refresh = (case refresh_arg kwargs of
                       None \<Rightarrow> (case index_auto_refresh doc of
                                  None \<Rightarrow> auto_refresh_enabled doc
                                | Some r \<Rightarrow> r)
                     | Some r \<Rightarrow> r);
          index_name = (if truthy (index_suffix kwargs)
                        then Some (get_index_name (base_name doc) (index_suffix kwargs))
                        else None);
          object_list = (case thing of Model m \<Rightarrow> [m] | Iterable xs \<Rightarrow> xs)
      in bulk_switch doc (get_actions doc object_list action index_name) (parallel_arg kwargs)
           \<lparr>kw_refresh = Some refresh, kw_chunk_size = chunk_size_arg kwargs\<rparr> w)"

section \<open>Paginated querying\<close>

text \<open>
  A query set of the relational layer: the rows it would return, in the order it would
  return them, and whether a slice has been taken (\<^verbatim>\<open>query.is_sliced\<close>).
\<close>

record 'a queryset =
  rows :: "'a model list"
  is_sliced :: bool

text \<open>
  \<^verbatim>\<open>Document.get_queryset\<close>. \<open>table\<close> is \<^verbatim>\<open>model.objects.all()\<close>, the rows of the model
  in its default order; a \<^verbatim>\<open>Q\<close> object is the predicate it stands for, and \<open>None\<close> is an
  absent or empty one.
\<close>

definition get_queryset ::
  "'a model list \<Rightarrow> ('a model \<Rightarrow> bool) option \<Rightarrow> ('a model \<Rightarrow> bool) option \<Rightarrow> nat option
     \<Rightarrow> 'a queryset"
where
  "get_queryset table filter' exclude count =
     (let qs = \<lparr>rows = table, is_sliced = False\<rparr>;
          qs = (case filter' of None \<Rightarrow> qs | Some q \<Rightarrow> qs\<lparr>rows := filter q (rows qs)\<rparr>);
          qs = (case exclude of None \<Rightarrow> qs | Some q \<Rightarrow> qs\<lparr>rows := filter (\<lambda>r. \<not> q r) (rows qs)\<rparr>);
          qs = (case count of None \<Rightarrow> qs | Some n \<Rightarrow> \<lparr>rows = take n (rows qs), is_sliced = True\<rparr>)
      in qs)"

text \<open>
  The \<^verbatim>\<open>while\<close> loop of \<^verbatim>\<open>Document.get_indexing_queryset\<close>. Beside the counters \<open>i\<close> and
  \<open>done\<close> of the source it carries the objects yielded so far and the number of slices
  pulled from the query. With a page size of zero the loop of the source never ends; the
  result is then \<open>None\<close>.
\<close>

partial_function (option) indexing_loop ::
  "nat \<Rightarrow> 'a model list \<Rightarrow> nat \<Rightarrow> nat \<Rightarrow> nat \<Rightarrow> 'a model list \<Rightarrow> nat
     \<Rightarrow> ('a model list \<times> nat) option"
where
  "indexing_loop chunk_size qs count i ndone out pulls =
     (if ndone < count
      then indexing_loop chunk_size qs count (min (i + chunk_size) count)
             (ndone + length (take chunk_size (drop i qs)))
             (out @ take chunk_size (drop i qs)) (Suc pulls)
      else Some (out, pulls))"

text \<open>
  \<^verbatim>\<open>Document.get_indexing_queryset\<close> without its progress output: the objects it yields, in
  order, and the number of slices it pulled.
\<close>

definition get_indexing_queryset ::
  "('a, 'i, 'v) document \<Rightarrow> 'a model list \<Rightarrow> ('a model \<Rightarrow> bool) option
     \<Rightarrow> ('a model \<Rightarrow> bool) option \<Rightarrow> nat option \<Rightarrow> ('a model list \<times> nat) option"
where
  "get_indexing_queryset doc table filter' exclude count =
     (let chunk_size = queryset_pagination doc;
          qs = get_queryset table filter' exclude count;
          qs = (if \<not> is_sliced qs then qs\<lparr>rows := sort_key pk (rows qs)\<rparr> else qs);
          count = length (rows qs)
      in indexing_loop chunk_size (rows qs) count 0 0 [] 0)"

section \<open>Example data\<close>

text \<open>
  A document over books whose only field is the title, with pages of two records and a
  predicate that leaves out the book with primary key 2; and an engine that accepts every
  item and has received nothing yet.
\<close>

definition book_document :: "(string, int, string) document" where
  "book_document =
     \<lparr>doc_class = ''BookDocument'', base_name = ''book'', queryset_pagination = 2,
      index_auto_refresh = None, auto_refresh_enabled = False,
      prepared_fields = [(''title'', \<lambda>r. Inr (columns r))],
      generate_id = default_generate_id, should_index_object = (\<lambda>r. pk r \<noteq> 2)\<rparr>"

definition fresh_world :: "(string, int, string) world" where
  "fresh_world = \<lparr>received = [], accepts = (\<lambda>d. True), sent = []\<rparr>"

text \<open>An engine that refuses every item.\<close>

definition refusing_world :: "(string, int, string) world" where
  "refusing_world = \<lparr>received = [], accepts = (\<lambda>d. False), sent = []\<rparr>"

section \<open>Names and listing\<close>

lemma glob_match_star_all: "glob_match ''*'' n"
  by (induction n) auto

lemma glob_match_star_skip: "glob_match q s \<Longrightarrow> glob_match (CHR ''*'' # q) s"
  by (cases s) auto

lemma glob_match_append_same: "glob_match ps s \<Longrightarrow> glob_match (xs @ ps) (xs @ s)"
proof (induction xs)
  case Nil
  then show ?case by simp
next
  case (Cons x xs)
  then show ?case by (auto intro: glob_match_star_skip)
qed

lemma glob_match_literal_prefix:
  "CHR ''*'' \<notin> set p \<Longrightarrow> glob_match (p @ ''*'') n = prefix p n"
proof (induction p arbitrary: n)
  case Nil
  then show ?case by (simp add: glob_match_star_all)
next
  case (Cons a p)
  then show ?case by (cases n) auto
qed

lemma get_all_indices_set:
  "set (get_all_indices B c) = {n \<in> set (index_names c). glob_match (B @ ''--*'') n}"
  by (auto simp: get_all_indices_def indices_get_def VERSION_NAME_SEPARATOR_def)

lemma get_all_indices_sorted: "sorted (get_all_indices B c)"
  by (simp add: get_all_indices_def)

lemma get_all_indices_distinct: "distinct (get_all_indices B c)"
  by (simp add: get_all_indices_def indices_get_def index_names_def)

text \<open>
  C9, as amended. For every base name, a non-empty suffix is appended after the separator
  \<open>--\<close>, while an empty or absent suffix leaves the base name as it is; and the listing
  is sorted by name. For a base name without the wildcard character, every listed
  generation starts with the base name and the separator.
\<close>

theorem get_index_name_and_listing:
  "(S \<noteq> [] \<longrightarrow> get_index_name B (Some S) = B @ ''--'' @ S)
   \<and> get_index_name B (Some []) = B
   \<and> get_index_name B None = B
   \<and> sorted (get_all_indices B c)
   \<and> (CHR ''*'' \<notin> set B \<longrightarrow> (\<forall>n \<in> set (get_all_indices B c). prefix (B @ ''--'') n))"
proof -
  have name: "get_index_name B (Some S) = B @ ''--'' @ S" if "S \<noteq> []"
    using that by (simp add: get_index_name_def VERSION_NAME_SEPARATOR_def)
  have bare: "get_index_name B (Some []) = B" "get_index_name B None = B"
    by (simp_all add: get_index_name_def)
  have listed: "\<forall>n \<in> set (get_all_indices B c). prefix (B @ ''--'') n" if "CHR ''*'' \<notin> set B"
  proof -
    have "CHR ''*'' \<notin> set (B @ ''--'')"
      using that by simp
    from glob_match_literal_prefix [OF this] show ?thesis
      by (simp add: get_all_indices_set)
  qed
  show ?thesis
    using name bare listed get_all_indices_sorted by blast
qed

theorem get_index_name_and_listing_witness:
  "''v1'' \<noteq> [] \<and> CHR ''*'' \<notin> set ''b''
   \<and> get_index_name ''b'' (Some ''v1'') = ''b--v1''
   \<and> list_all (prefix ''b--'')
        (get_all_indices ''b''
           \<lparr>indices = [(''b--v2'', []), (''c--v1'', []), (''b--v1'', [''b''])], requests = []\<rparr>)
   \<and> sorted
        (get_all_indices ''b''
           \<lparr>indices = [(''b--v2'', []), (''c--v1'', []), (''b--v1'', [''b''])], requests = []\<rparr>)"
  using get_index_name_and_listing [of "''v1''" "''b''"
      "\<lparr>indices = [(''b--v2'', []), (''c--v1'', []), (''b--v1'', [''b''])], requests = []\<rparr>"]
  by (simp add: list_all_iff)

text \<open>
  The claim as stated fails for the empty suffix, which \<^verbatim>\<open>if suffix:\<close> treats like no
  suffix, and for a base name that holds a wildcard, which the engine expands.
\<close>

theorem get_index_name_and_listing_counterexample:
  "get_index_name ''b'' (Some []) \<noteq> ''b'' @ ''--'' @ []
   \<and> get_all_indices ''a*'' \<lparr>indices = [(''ab--c'', [])], requests = []\<rparr> = [''ab--c'']
   \<and> \<not> prefix (''a*'' @ ''--'') ''ab--c''"
  by code_simp

section \<open>Switching the alias\<close>

lemma batches_append: "batches (xs @ ys) = batches xs @ batches ys"
  by (induction xs rule: batches.induct) auto

lemma first_with_alias_filter:
  "first_with_alias c B xs =
     (case filter (\<lambda>n. exists_alias c n B) xs of [] \<Rightarrow> None | x # _ \<Rightarrow> Some x)"
  by (induction xs) auto

lemma get_active_index_holders:
  "get_active_index B c = (case alias_holders B c of [] \<Rightarrow> None | x # _ \<Rightarrow> Some x)"
  by (simp add: get_active_index_def alias_holders_def first_with_alias_filter)

lemma actions_on_aliases_holders:
  "actions_on_aliases B S c =
     (if alias_holders B c = [] then [] else [Remove (hd (alias_holders B c)) B])
     @ [Add (get_index_name B S) B]"
  by (simp add: actions_on_aliases_def get_active_index_holders split: list.splits)

lemma requests_update_aliases:
  "requests (snd (update_aliases acts c)) = requests c @ [UpdateAliases acts]"
  by (simp add: update_aliases_def Let_def split: sum.splits)

lemma requests_index_delete:
  "requests (snd (index_delete n c)) = requests c @ [DeleteIndex n]"
  by (simp add: index_delete_def Let_def)

lemma index_names_set: "set (index_names c) = fst ` set (indices c)"
  by (simp add: index_names_def)

lemma length_actions_on_aliases:
  "length (actions_on_aliases B S c) = Suc 0 \<longleftrightarrow> alias_holders B c = []"
  by (simp add: actions_on_aliases_holders)

text \<open>
  C3, as amended. The batch that \<^verbatim>\<open>migrate\<close> builds ends with the action that adds the
  alias to the index named from the base name and the suffix; a remove action is put in
  front of it exactly when some listed generation carries the alias at that moment, the
  target included, and it names the first such generation. What the call does with the
  batch is decided by the engine it starts from. With a holder, or with a base name that
  does not exist, the batch is submitted at once. With no holder and a concrete index of
  the base name, that index is deleted and the batch is submitted next. With no holder and
  a base name that is only an alias, the delete raises and no batch is submitted. In every
  other case than the last the batch is the one alias batch the call adds to the requests.
\<close>

theorem migrate_batch:
  "actions_on_aliases B S c =
     (if alias_holders B c = [] then [] else [Remove (hd (alias_holders B c)) B])
     @ [Add (get_index_name B S) B]
   \<and> (alias_holders B c \<noteq> [] \<or> \<not> indices_exists c B \<longrightarrow>
        migrate B S c = update_aliases (actions_on_aliases B S c) c)
   \<and> (alias_holders B c = [] \<and> B \<in> set (index_names c) \<longrightarrow>
        fst (index_delete B c) = None
        \<and> migrate B S c = update_aliases (actions_on_aliases B S c) (snd (index_delete B c)))
   \<and> (alias_holders B c = [] \<and> B \<notin> set (index_names c) \<and> is_alias c B \<longrightarrow>
        migrate B S c = (Some RequestError, c\<lparr>requests := requests c @ [DeleteIndex B]\<rparr>))
   \<and> (\<not> (alias_holders B c = [] \<and> B \<notin> set (index_names c) \<and> is_alias c B) \<longrightarrow>
        batches (requests (snd (migrate B S c)))
          = batches (requests c) @ [actions_on_aliases B S c])"
proof -
  let ?acts = "actions_on_aliases B S c"
  have direct: "migrate B S c = update_aliases ?acts c"
    if "alias_holders B c \<noteq> [] \<or> \<not> indices_exists c B"
    using that by (auto simp: migrate_def Let_def length_actions_on_aliases)
  have bare: "fst (index_delete B c) = None
        \<and> migrate B S c = update_aliases ?acts (snd (index_delete B c))"
    if "alias_holders B c = []" and "B \<in> set (index_names c)"
  proof -
    have "indices_exists c B"
      using that(2) by (simp add: indices_exists_def)
    moreover have "fst (index_delete B c) = None"
      using that(2) by (simp add: index_delete_def Let_def)
    ultimately show ?thesis
      using that(1) by (cases "index_delete B c") (simp add: migrate_def Let_def length_actions_on_aliases)
  qed
  have aliased: "migrate B S c = (Some RequestError, c\<lparr>requests := requests c @ [DeleteIndex B]\<rparr>)"
    if "alias_holders B c = []" and "B \<notin> set (index_names c)" and "is_alias c B"
    using that
    by (simp add: migrate_def Let_def length_actions_on_aliases indices_exists_def index_delete_def)
  have submitted: "batches (requests (snd (migrate B S c))) = batches (requests c) @ [?acts]"
    if "\<not> (alias_holders B c = [] \<and> B \<notin> set (index_names c) \<and> is_alias c B)"
  proof (cases "alias_holders B c \<noteq> [] \<or> \<not> indices_exists c B")
    case True
    then show ?thesis
      by (simp only: direct requests_update_aliases batches_append) simp
  next
    case False
    with that have "alias_holders B c = []" and "B \<in> set (index_names c)"
      by (auto simp: indices_exists_def)
    from bare [OF this] show ?thesis
      by (simp add: requests_update_aliases requests_index_delete batches_append)
  qed
  show ?thesis
    using actions_on_aliases_holders direct bare aliased submitted by blast
qed

theorem migrate_batch_witness:
  "actions_on_aliases ''b'' (Some ''v2'') \<lparr>indices = [(''b--v1'', [''b'']), (''b--v2'', [])], requests = []\<rparr>
    = [Remove ''b--v1'' ''b'', Add ''b--v2'' ''b'']
   \<and> batches (requests (snd (migrate ''b'' (Some ''v2'')
         \<lparr>indices = [(''b--v1'', [''b'']), (''b--v2'', [])], requests = []\<rparr>)))
      = [[Remove ''b--v1'' ''b'', Add ''b--v2'' ''b'']]"
proof -
  have "actions_on_aliases ''b'' (Some ''v2'') \<lparr>indices = [(''b--v1'', [''b'']), (''b--v2'', [])], requests = []\<rparr>
    = [Remove ''b--v1'' ''b'', Add ''b--v2'' ''b'']"
    by code_simp
  moreover have "alias_holders ''b'' \<lparr>indices = [(''b--v1'', [''b'']), (''b--v2'', [])], requests = []\<rparr> \<noteq> []"
    by code_simp
  then have "batches (requests (snd (migrate ''b'' (Some ''v2'')
         \<lparr>indices = [(''b--v1'', [''b'']), (''b--v2'', [])], requests = []\<rparr>)))
      = batches (requests \<lparr>indices = [(''b--v1'', [''b'']), (''b--v2'', [])], requests = []\<rparr>)
        @ [actions_on_aliases ''b'' (Some ''v2'')
             \<lparr>indices = [(''b--v1'', [''b'']), (''b--v2'', [])], requests = []\<rparr>]"
    using migrate_batch [of "''b''" "Some ''v2''" "\<lparr>indices = [(''b--v1'', [''b'']), (''b--v2'', [])], requests = []\<rparr>"]
    by blast
  ultimately show ?thesis
    by simp
qed

text \<open>
  The claim as stated fails when the target generation itself carries the alias: the remove
  action is there although no other generation holds the alias.
\<close>

theorem migrate_batch_counterexample:
  "actions_on_aliases ''b'' (Some ''v1'') \<lparr>indices = [(''b--v1'', [''b''])], requests = []\<rparr>
     = [Remove ''b--v1'' ''b'', Add ''b--v1'' ''b'']
   \<and> alias_holders ''b'' \<lparr>indices = [(''b--v1'', [''b''])], requests = []\<rparr> = [''b--v1'']
   \<and> get_index_name ''b'' (Some ''v1'') = ''b--v1''"
  by code_simp

text \<open>
  C2, as amended. When no generation carries the alias and a concrete index bears the base
  name, the batch holds one action, the add, and no remove; the bare index is deleted
  first, and the batch goes to an engine that no longer has it.
\<close>

theorem migrate_bare_index:
  assumes "alias_holders B c = []" and "B \<in> set (index_names c)"
  shows "actions_on_aliases B S c = [Add (get_index_name B S) B]
       \<and> filter is_remove (actions_on_aliases B S c) = []
       \<and> requests (snd (migrate B S c))
           = requests c @ [DeleteIndex B, UpdateAliases [Add (get_index_name B S) B]]
       \<and> fst (index_delete B c) = None
       \<and> B \<notin> set (index_names (snd (index_delete B c)))
       \<and> migrate B S c = update_aliases [Add (get_index_name B S) B] (snd (index_delete B c))"
proof -
  have acts: "actions_on_aliases B S c = [Add (get_index_name B S) B]"
    using assms(1) by (simp add: actions_on_aliases_holders)
  have ex: "indices_exists c B"
    using assms(2) by (simp add: indices_exists_def)
  have del: "fst (index_delete B c) = None"
    using assms(2) by (simp add: index_delete_def Let_def)
  have gone: "B \<notin> set (index_names (snd (index_delete B c)))"
    using assms(2) by (auto simp: index_delete_def Let_def index_names_set)
  have mig: "migrate B S c = update_aliases [Add (get_index_name B S) B] (snd (index_delete B c))"
    using acts ex del by (cases "index_delete B c") (simp add: migrate_def Let_def)
  have "requests (snd (migrate B S c))
           = requests c @ [DeleteIndex B, UpdateAliases [Add (get_index_name B S) B]]"
    by (simp add: mig requests_update_aliases requests_index_delete)
  then show ?thesis using acts del gone mig by simp
qed

theorem migrate_bare_index_witness:
  "alias_holders ''b'' \<lparr>indices = [(''b'', []), (''b--v1'', [])], requests = []\<rparr> = []
   \<and> ''b'' \<in> set (index_names \<lparr>indices = [(''b'', []), (''b--v1'', [])], requests = []\<rparr>)
   \<and> migrate ''b'' (Some ''v1'') \<lparr>indices = [(''b'', []), (''b--v1'', [])], requests = []\<rparr>
      = (None, \<lparr>indices = [(''b--v1'', [''b''])],
                requests = [DeleteIndex ''b'', UpdateAliases [Add ''b--v1'' ''b'']]\<rparr>)"
  using migrate_bare_index [of "''b''" "\<lparr>indices = [(''b'', []), (''b--v1'', [])], requests = []\<rparr>" "Some ''v1''"]
  by code_simp

text \<open>
  The claim as stated asks for a remove action in that batch; there is none.
\<close>

theorem migrate_bare_index_counterexample:
  "get_active_index ''b'' \<lparr>indices = [(''b'', []), (''b--v1'', [])], requests = []\<rparr> = None
   \<and> ''b'' \<in> set (index_names \<lparr>indices = [(''b'', []), (''b--v1'', [])], requests = []\<rparr>)
   \<and> batches (requests (snd (migrate ''b'' (Some ''v1'')
        \<lparr>indices = [(''b'', []), (''b--v1'', [])], requests = []\<rparr>)))
      = [[Add ''b--v1'' ''b'']]
   \<and> filter is_remove (actions_on_aliases ''b'' (Some ''v1'')
        \<lparr>indices = [(''b'', []), (''b--v1'', [])], requests = []\<rparr>) = []"
  by code_simp

section \<open>Initialising twice\<close>

lemma filter_eq_self_distinct: "distinct ys \<Longrightarrow> x \<in> set ys \<Longrightarrow> filter (\<lambda>y. y = x) ys = [x]"
  by (induction ys) (auto simp: filter_empty_conv)

lemma generation_listed: "glob_match (B @ ''--*'') (B @ ''--'' @ t)"
proof -
  have "glob_match (''--'' @ ''*'') (''--'' @ t)"
    by (rule glob_match_append_same) (rule glob_match_star_all)
  then have "glob_match (B @ ''--'' @ ''*'') (B @ ''--'' @ t)"
    by (rule glob_match_append_same)
  then show ?thesis by simp
qed

lemma alias_holders_single:
  assumes "x \<in> set (index_names c)" and "glob_match (B @ ''--*'') x"
    and "\<And>n. exists_alias c n B \<longleftrightarrow> n = x"
  shows "alias_holders B c = [x]"
proof -
  have "x \<in> set (get_all_indices B c)"
    using assms(1,2) by (simp add: get_all_indices_set)
  then have "filter (\<lambda>y. y = x) (get_all_indices B c) = [x]"
    using get_all_indices_distinct by (rule filter_eq_self_distinct [rotated])
  then show ?thesis
    by (simp add: alias_holders_def assms(3))
qed

lemma alias_holders_none: "(\<And>n. \<not> exists_alias c n B) \<Longrightarrow> alias_holders B c = []"
  by (simp add: alias_holders_def)

lemma aliases_of_unknown: "n \<notin> set (index_names c) \<Longrightarrow> aliases_of c n = []"
  by (simp add: aliases_of_def index_names_def map_of_eq_None_iff [THEN iffD2])

lemma is_alias_iff: "is_alias c a \<longleftrightarrow> (\<exists>n. a \<in> set (aliases_of c n))"
proof
  assume "is_alias c a"
  then show "\<exists>n. a \<in> set (aliases_of c n)"
    by (auto simp: is_alias_def list_ex_iff)
next
  assume "\<exists>n. a \<in> set (aliases_of c n)"
  then obtain n where n: "a \<in> set (aliases_of c n)" ..
  then have "n \<in> set (index_names c)"
    by (cases "n \<in> set (index_names c)") (simp_all add: aliases_of_unknown)
  with n show "is_alias c a"
    by (auto simp: is_alias_def list_ex_iff)
qed

lemma aliases_of_index_save: "aliases_of (index_save n c) m = aliases_of c m"
  by (auto simp: index_save_def aliases_of_def map_add_def split: option.splits)

lemma is_alias_index_save: "is_alias (index_save n c) a = is_alias c a"
  by (simp add: is_alias_iff aliases_of_index_save)

lemma index_names_index_save:
  "set (index_names (index_save n c)) =
     (if indices_exists c n then set (index_names c) else insert n (set (index_names c)))"
  by (auto simp: index_save_def index_names_def)

lemma requests_index_save:
  "batches (requests (index_save n c)) = batches (requests c)"
  by (simp add: index_save_def batches_append)

lemma map_of_map_entry:
  "map_of (map (\<lambda>(m, as). if m = i then (m, g as) else (m, as)) idx) n =
     (if n = i then map_option g (map_of idx n) else map_of idx n)"
  by (induction idx) auto

lemma fst_map_entry:
  "map fst (map (\<lambda>(m, as). if m = i then (m, g as) else (m, as)) idx) = map fst idx"
  by (induction idx) auto

text \<open>
  C1, as amended. On an engine where the base name is free (neither an index nor an alias)
  and the name of the first generation is not an alias, \<^verbatim>\<open>init\<close> with the default
  suffix followed by a second \<^verbatim>\<open>init\<close> leaves exactly one generation with the alias:
  the one of the first call. The second call finds the base name existing, as an alias,
  and only creates its index; it submits no alias batch.
\<close>

theorem init_twice:
  assumes free: "\<not> indices_exists c B" and t: "t \<noteq> []"
    and noalias: "\<not> is_alias c (B @ ''--'' @ t)"
  shows "fst (init t B None c) = None
       \<and> alias_holders B (snd (init t B None c)) = [B @ ''--'' @ t]
       \<and> init t' B S2 (snd (init t B None c))
           = (None, index_save (get_index_name B (if truthy S2 then S2 else Some t'))
                      (snd (init t B None c)))
       \<and> batches (requests (snd (init t' B S2 (snd (init t B None c)))))
           = batches (requests c) @ [[Add (B @ ''--'' @ t) B]]
       \<and> alias_holders B (snd (init t' B S2 (snd (init t B None c)))) = [B @ ''--'' @ t]"
proof -
  let ?g = "B @ ''--'' @ t"
  let ?c1' = "index_save ?g c"
  have name1: "get_index_name B (Some t) = ?g"
    using t by (simp add: get_index_name_def VERSION_NAME_SEPARATOR_def)
  have g_in: "?g \<in> set (index_names ?c1')"
    using noalias by (auto simp: index_names_index_save indices_exists_def)
  have "B \<noteq> ?g" using t by simp
  then have B_out: "B \<notin> set (index_names ?c1')"
    using free by (auto simp: index_names_index_save indices_exists_def)
  have no_B: "\<And>n. B \<notin> set (aliases_of ?c1' n)"
    using free by (simp add: aliases_of_index_save indices_exists_def is_alias_iff)
  then have not_ex: "\<not> indices_exists ?c1' B"
    using B_out by (simp add: indices_exists_def is_alias_iff)
  have "alias_holders B ?c1' = []"
    using no_B by (simp add: alias_holders_none exists_alias_def)
  then have acts: "actions_on_aliases B (Some t) ?c1' = [Add ?g B]"
    by (simp add: actions_on_aliases_holders name1)
  let ?idx = "map (\<lambda>(m, as). if m = ?g then (m, List.insert B as) else (m, as)) (indices ?c1')"
  let ?c1 = "?c1'\<lparr>requests := requests ?c1' @ [UpdateAliases [Add ?g B]], indices := ?idx\<rparr>"
  have "apply_alias_actions [Add ?g B] (indices ?c1') = Inr ?idx"
    using g_in B_out by (simp add: index_names_set)
  then have "update_aliases [Add ?g B] ?c1' = (None, ?c1)"
    by (simp add: update_aliases_def Let_def)
  then have "migrate B (Some t) ?c1' = (None, ?c1)"
    using acts not_ex by (simp add: migrate_def Let_def)
  then have init1: "init t B None c = (None, ?c1)"
    using not_ex name1 by (simp add: init_def Let_def)
  have "index_names ?c1 = remdups (map fst ?idx)"
    by (simp add: index_names_def)
  then have names1: "set (index_names ?c1) = set (index_names ?c1')"
    by (simp only: fst_map_entry index_names_def)
  have "?g \<in> fst ` set (indices ?c1')"
    using g_in by (simp only: index_names_set)
  then have g_known: "map_of (indices ?c1') ?g \<noteq> None"
    by (simp only: map_of_eq_None_iff not_not)
  have holds1: "\<And>n. exists_alias ?c1 n B \<longleftrightarrow> n = ?g"
    using no_B g_known by (auto simp: exists_alias_def aliases_of_def map_of_map_entry split: option.splits)
  have g_in1: "?g \<in> set (index_names ?c1)"
    unfolding names1 by (rule g_in)
  have h1: "alias_holders B ?c1 = [?g]"
    by (rule alias_holders_single [OF g_in1 generation_listed holds1])
  have req1: "batches (requests ?c1) = batches (requests c) @ [[Add ?g B]]"
    by (simp add: batches_append requests_index_save)
  let ?n2 = "get_index_name B (if truthy S2 then S2 else Some t')"
  let ?c2 = "index_save ?n2 ?c1"
  have "is_alias ?c1 B"
    using holds1 [of ?g] by (auto simp: is_alias_iff exists_alias_def)
  then have ex2: "indices_exists ?c2 B"
    by (simp add: indices_exists_def is_alias_index_save)
  then have init2: "init t' B S2 ?c1 = (None, ?c2)"
    by (simp add: init_def Let_def)
  have holds2: "\<And>n. exists_alias ?c2 n B \<longleftrightarrow> n = ?g"
    using holds1 by (simp add: exists_alias_def aliases_of_index_save)
  have g_in2: "?g \<in> set (index_names ?c2)"
    using g_in1 by (simp only: index_names_index_save split: if_splits) simp
  have h2: "alias_holders B ?c2 = [?g]"
    by (rule alias_holders_single [OF g_in2 generation_listed holds2])
  have req2: "batches (requests ?c2) = batches (requests c) @ [[Add ?g B]]"
    using req1 by (simp add: requests_index_save)
  show ?thesis
    unfolding init1 init2 snd_conv fst_conv using h1 h2 req2 by simp
qed

theorem init_twice_witness:
  "alias_holders ''b''
     (snd (init ''20240101120001000000'' ''b'' (Some ''v2'')
        (snd (init ''20240101120000000000'' ''b'' None \<lparr>indices = [(''a'', [''c''])], requests = []\<rparr>))))
     = [''b--20240101120000000000'']"
proof -
  have "\<not> indices_exists \<lparr>indices = [(''a'', [''c''])], requests = []\<rparr> ''b''"
    and "''20240101120000000000'' \<noteq> []"
    and "\<not> is_alias \<lparr>indices = [(''a'', [''c''])], requests = []\<rparr> (''b'' @ ''--'' @ ''20240101120000000000'')"
    by code_simp+
  from init_twice [OF this, of "''20240101120001000000''" "Some ''v2''"]
  have "alias_holders ''b''
     (snd (init ''20240101120001000000'' ''b'' (Some ''v2'')
        (snd (init ''20240101120000000000'' ''b'' None \<lparr>indices = [(''a'', [''c''])], requests = []\<rparr>))))
     = [''b'' @ ''--'' @ ''20240101120000000000'']"
    by (elim conjE)
  then show ?thesis by simp
qed

text \<open>
  The claim as stated names the generation of the most recent call as the holder; after
  the two calls the holder is the first generation, not \<open>b--v2\<close>.
\<close>

theorem init_twice_counterexample:
  "alias_holders ''b''
     (snd (init ''20240101120001000000'' ''b'' (Some ''v2'')
        (snd (init ''20240101120000000000'' ''b'' None \<lparr>indices = [], requests = []\<rparr>))))
     = [''b--20240101120000000000'']
   \<and> get_index_name ''b'' (Some ''v2'') = ''b--v2''"
  by code_simp

section \<open>Building actions\<close>

text \<open>
  C7. The descriptor of a delete carries no source document: its \<open>_source\<close> entry is
  \<open>None\<close> and it has no \<open>doc\<close> entry, and the preparers are not run. For an update the
  extracted mapping sits under \<open>doc\<close> and there is no \<open>_source\<close> entry. For every other
  action the extracted mapping sits under \<open>_source\<close> and there is no \<open>doc\<close> entry. When
  the extraction raises, so does the building of a descriptor that needs it.
\<close>

theorem prepare_action_payload:
  "(\<exists>d. prepare_action doc obj ''delete'' idx = Inr d
        \<and> map_of d ''_source'' = Some PyNone \<and> map_of d ''doc'' = None
        \<and> map_of d ''_op_type'' = Some (Str ''delete''))
   \<and> (\<forall>data. prepare doc obj = Inr data \<longrightarrow>
         (\<exists>d. prepare_action doc obj ''update'' idx = Inr d
            \<and> map_of d ''doc'' = Some (Mapping data) \<and> map_of d ''_source'' = None
            \<and> map_of d ''_op_type'' = Some (Str ''update'')))
   \<and> (\<forall>data. prepare doc obj = Inr data \<and> action \<noteq> ''delete'' \<and> action \<noteq> ''update'' \<longrightarrow>
         (\<exists>d. prepare_action doc obj action idx = Inr d
            \<and> map_of d ''_source'' = Some (Mapping data) \<and> map_of d ''doc'' = None
            \<and> map_of d ''_op_type'' = Some (Str action)))
   \<and> (\<forall>e. prepare doc obj = Inl e \<and> action \<noteq> ''delete'' \<longrightarrow>
         prepare_action doc obj action idx = Inl e)"
  by (simp add: prepare_action_def Let_def)

theorem prepare_action_payload_witness:
  "prepare book_document \<lparr>pk = 7, columns = ''Dune''\<rparr> = Inr [(''title'', ''Dune'')]
   \<and> (\<exists>d. prepare_action book_document \<lparr>pk = 7, columns = ''Dune''\<rparr> ''update'' None = Inr d
         \<and> map_of d ''doc'' = Some (Mapping [(''title'', ''Dune'')])
         \<and> map_of d ''_source'' = None)
   \<and> (\<exists>d. prepare_action book_document \<lparr>pk = 7, columns = ''Dune''\<rparr> ''index'' None = Inr d
         \<and> map_of d ''_source'' = Some (Mapping [(''title'', ''Dune'')])
         \<and> map_of d ''doc'' = None)"
proof -
  have p: "prepare book_document \<lparr>pk = 7, columns = ''Dune''\<rparr> = Inr [(''title'', ''Dune'')]"
    by (simp add: prepare_def book_document_def)
  have "''index'' \<noteq> ''delete''" and "''index'' \<noteq> ''update''"
    by simp_all
  with p show ?thesis
    using prepare_action_payload
      [of book_document "\<lparr>pk = 7, columns = ''Dune''\<rparr>" None "''index''"]
    by blast
qed

text \<open>
  C8. The stream hands out, in order, the descriptors of the records it selects, and
  raises at the first selected record whose extraction raises: for a delete it selects
  every record of the list, whatever the predicate says, and never raises; for any other
  action it selects the records that satisfy the predicate and passes over the others.
  So when the extraction succeeds on every record that satisfies the predicate, the stream
  of a non-delete action ends without raising and holds the descriptor of each of them
  and of no other record.
\<close>

theorem get_actions_selection:
  "get_actions doc objs action idx =
     gen_of_results (map (\<lambda>obj. prepare_action doc obj action idx)
       (if action = ''delete'' then objs else filter (should_index_object doc) objs))
   \<and> map Inr (yielded (get_actions doc objs ''delete'' idx))
       = map (\<lambda>obj. prepare_action doc obj ''delete'' idx) objs
   \<and> raised (get_actions doc objs ''delete'' idx) = None
   \<and> (action \<noteq> ''delete''
        \<and> (\<forall>obj \<in> set objs. should_index_object doc obj \<longrightarrow> (\<exists>data. prepare doc obj = Inr data)) \<longrightarrow>
         raised (get_actions doc objs action idx) = None
         \<and> map Inr (yielded (get_actions doc objs action idx))
             = map (\<lambda>obj. prepare_action doc obj action idx) (filter (should_index_object doc) objs))
   \<and> (action \<noteq> ''delete'' \<longrightarrow>
         prefix (map Inr (yielded (get_actions doc objs action idx)))
           (map (\<lambda>obj. prepare_action doc obj action idx) (filter (should_index_object doc) objs)))
   \<and> (action \<noteq> ''delete'' \<and> raised (get_actions doc objs action idx) = None \<longrightarrow>
         map Inr (yielded (get_actions doc objs action idx))
           = map (\<lambda>obj. prepare_action doc obj action idx) (filter (should_index_object doc) objs))"
proof -
  have exact: "get_actions doc objs action idx =
     gen_of_results (map (\<lambda>obj. prepare_action doc obj action idx)
       (if action = ''delete'' then objs else filter (should_index_object doc) objs))"
    by (induction objs) (auto split: sum.splits)
  have del: "\<And>obj. \<exists>d. prepare_action doc obj ''delete'' idx = Inr d"
    by (simp add: prepare_action_def Let_def)
  have a: "map Inr (yielded (get_actions doc objs ''delete'' idx))
     = map (\<lambda>obj. prepare_action doc obj ''delete'' idx) objs
     \<and> raised (get_actions doc objs ''delete'' idx) = None"
  proof (induction objs)
    case Nil
    then show ?case by simp
  next
    case (Cons obj objs)
    obtain d where "prepare_action doc obj ''delete'' idx = Inr d"
      using del by blast
    with Cons show ?case by simp
  qed
  have ok: "\<exists>d. prepare_action doc obj action idx = Inr d" if "prepare doc obj = Inr data" for obj data
    using that by (simp add: prepare_action_def Let_def)
  have total: "raised (get_actions doc objs action idx) = None
         \<and> map Inr (yielded (get_actions doc objs action idx))
             = map (\<lambda>obj. prepare_action doc obj action idx) (filter (should_index_object doc) objs)"
    if "action \<noteq> ''delete''"
      and "\<forall>obj \<in> set objs. should_index_object doc obj \<longrightarrow> (\<exists>data. prepare doc obj = Inr data)"
    using that
  proof (induction objs)
    case Nil
    then show ?case by simp
  next
    case (Cons obj objs)
    show ?case
    proof (cases "should_index_object doc obj")
      case False
      with Cons show ?thesis by simp
    next
      case True
      with Cons.prems obtain d where "prepare_action doc obj action idx = Inr d"
        using ok by fastforce
      with Cons True show ?thesis by simp
    qed
  qed
  have b: "prefix (map Inr (yielded (get_actions doc objs action idx)))
           (map (\<lambda>obj. prepare_action doc obj action idx) (filter (should_index_object doc) objs))"
    if "action \<noteq> ''delete''"
    using that by (induction objs) (auto split: sum.splits)
  have c: "map Inr (yielded (get_actions doc objs action idx))
           = map (\<lambda>obj. prepare_action doc obj action idx) (filter (should_index_object doc) objs)"
    if "action \<noteq> ''delete''" and "raised (get_actions doc objs action idx) = None"
    using that by (induction objs) (auto split: sum.splits if_splits)
  show ?thesis using exact a total b c by blast
qed

theorem get_actions_selection_witness:
  "yielded (get_actions book_document
       [\<lparr>pk = 2, columns = ''Emma''\<rparr>, \<lparr>pk = 1, columns = ''Dune''\<rparr>] ''index'' None)
     = [[(''_op_type'', Str ''index''), (''_index'', Str ''book''), (''_id'', Ident 1),
         (''_source'', Mapping [(''title'', ''Dune'')])]]
   \<and> raised (get_actions book_document
       [\<lparr>pk = 2, columns = ''Emma''\<rparr>, \<lparr>pk = 1, columns = ''Dune''\<rparr>] ''index'' None) = None
   \<and> yielded (get_actions book_document
       [\<lparr>pk = 2, columns = ''Emma''\<rparr>, \<lparr>pk = 1, columns = ''Dune''\<rparr>] ''delete'' None)
     = [[(''_op_type'', Str ''delete''), (''_index'', Str ''book''), (''_id'', Ident 2),
         (''_source'', PyNone)],
        [(''_op_type'', Str ''delete''), (''_index'', Str ''book''), (''_id'', Ident 1),
         (''_source'', PyNone)]]"
proof -
  let ?objs = "[\<lparr>pk = 2, columns = ''Emma''\<rparr>, \<lparr>pk = 1, columns = ''Dune''\<rparr>]"
  have "''index'' \<noteq> ''delete''"
    by simp
  moreover have "\<forall>obj \<in> set ?objs. should_index_object book_document obj
      \<longrightarrow> (\<exists>data. prepare book_document obj = Inr data)"
    by (simp add: prepare_def book_document_def)
  ultimately have
    "raised (get_actions book_document ?objs ''index'' None) = None"
    and "map Inr (yielded (get_actions book_document ?objs ''index'' None))
      = map (\<lambda>obj. prepare_action book_document obj ''index'' None)
          (filter (should_index_object book_document) ?objs)"
    and "map Inr (yielded (get_actions book_document ?objs ''delete'' None))
      = map (\<lambda>obj. prepare_action book_document obj ''delete'' None) ?objs"
    using get_actions_selection [of book_document ?objs "''index''" None]
    by blast+
  then have
    "raised (get_actions book_document ?objs ''index'' None) = None"
    and "map Inr (yielded (get_actions book_document ?objs ''index'' None))
      = [Inr [(''_op_type'', Str ''index''), (''_index'', Str ''book''), (''_id'', Ident 1),
         (''_source'', Mapping [(''title'', ''Dune'')])]]"
    and "map Inr (yielded (get_actions book_document ?objs ''delete'' None))
      = [Inr [(''_op_type'', Str ''delete''), (''_index'', Str ''book''), (''_id'', Ident 2),
         (''_source'', PyNone)],
        Inr [(''_op_type'', Str ''delete''), (''_index'', Str ''book''), (''_id'', Ident 1),
         (''_source'', PyNone)]]"
    by (simp_all add: prepare_action_def prepare_def book_document_def default_generate_id_def)
  then show ?thesis
    by (simp add: map_eq_Cons_conv)
qed

section \<open>Submitting actions\<close>

lemma yielded_gen_of_list: "yielded (gen_of_list xs) = xs"
  by (induction xs) auto

lemma raised_gen_of_list: "raised (gen_of_list xs) = None"
  by (induction xs) auto

lemma next_chunk_gen_of_list:
  "\<exists>ch rest. next_chunk n acc (gen_of_list ds) = (Inr ch, gen_of_list rest)
      \<and> ch @ rest = acc @ ds \<and> (acc @ ds \<noteq> [] \<longrightarrow> ch \<noteq> [])"
proof (induction ds arbitrary: acc)
  case Nil
  show ?case by (rule exI [of _ acc], rule exI [of _ "[]"]) simp
next
  case (Cons d ds)
  show ?case
  proof (cases "acc \<noteq> [] \<and> length acc = n")
    case True
    then show ?thesis
      by (intro exI [of _ acc] exI [of _ "d # ds"]) simp
  next
    case False
    from Cons [of "acc @ [d]"] obtain ch rest where
      "next_chunk n (acc @ [d]) (gen_of_list ds) = (Inr ch, gen_of_list rest)"
      "ch @ rest = (acc @ [d]) @ ds" "ch \<noteq> []"
      by auto
    with False show ?thesis
      by (intro exI [of _ ch] exI [of _ rest]) auto
  qed
qed

lemma deque0_buffered:
  "deque0 (LazyResults g buf n r) w = deque0 (LazyResults g [] n r) w"
proof (induction buf)
  case Nil
  show ?case by simp
next
  case (Cons b buf)
  have "deque0 (LazyResults g (b # buf) n r) w = deque0 (LazyResults g buf n r) w"
    by (subst deque0.simps) (simp add: next_result_def)
  with Cons show ?case by simp
qed

lemma deque0_end: "deque0 (LazyResults Stop [] n r) w = (None, w)"
  by (subst deque0.simps) (simp add: next_result_def)

lemma deque0_chunk_accepted:
  assumes "next_chunk n [] g = (Inr (a # as), g')" and "list_all (accepts w) (a # as)"
  shows "deque0 (LazyResults g [] n r) w =
     deque0 (LazyResults g' [] n r)
       (w\<lparr>received := received w @ map (\<lambda>d. (d, r)) (a # as)\<rparr>)"
proof -
  have "deque0 (LazyResults g [] n r) w =
      deque0 (LazyResults g' (map (Pair True) as) n r)
        (w\<lparr>received := received w @ map (\<lambda>d. (d, r)) (a # as)\<rparr>)"
    using assms by (subst deque0.simps) (simp add: next_result_def Let_def)
  then show ?thesis
    by (simp only: deque0_buffered [of g' "map (Pair True) as"])
qed

lemma deque0_chunk_refused:
  assumes "next_chunk n [] g = (Inr (a # as), g')" and "\<not> list_all (accepts w) (a # as)"
  shows "deque0 (LazyResults g [] n r) w =
     (Some BulkIndexError, w\<lparr>received := received w @ map (\<lambda>d. (d, r)) (a # as)\<rparr>)"
  using assms by (subst deque0.simps) (auto simp: next_result_def Let_def)

lemma deque0_all_accepted:
  "list_all (accepts w) ds \<Longrightarrow>
     deque0 (LazyResults (gen_of_list ds) [] n r) w =
       (None, w\<lparr>received := received w @ map (\<lambda>d. (d, r)) ds\<rparr>)"
proof (induction "length ds" arbitrary: ds w rule: less_induct)
  case less
  show ?case
  proof (cases ds)
    case Nil
    then show ?thesis by (simp add: deque0_end)
  next
    case (Cons d ds')
    with next_chunk_gen_of_list [of n "[]" ds] obtain a as rest where
      nc: "next_chunk n [] (gen_of_list ds) = (Inr (a # as), gen_of_list rest)"
      and split: "(a # as) @ rest = ds"
      by (auto simp: neq_Nil_conv)
    let ?w' = "w\<lparr>received := received w @ map (\<lambda>d. (d, r)) (a # as)\<rparr>"
    have acc: "list_all (accepts w) (a # as)" "list_all (accepts ?w') rest"
      using less.prems split by auto
    have "length rest < length ds"
      using split by auto
    then have "deque0 (LazyResults (gen_of_list rest) [] n r) ?w' =
        (None, ?w'\<lparr>received := received ?w' @ map (\<lambda>d. (d, r)) rest\<rparr>)"
      using acc(2) by (rule less.hyps)
    moreover have "deque0 (LazyResults (gen_of_list ds) [] n r) w =
        deque0 (LazyResults (gen_of_list rest) [] n r) ?w'"
      by (rule deque0_chunk_accepted [OF nc acc(1)])
    ultimately show ?thesis
      using split by auto
  qed
qed

lemma deque0_refused:
  "\<not> list_all (accepts w) ds \<Longrightarrow>
     fst (deque0 (LazyResults (gen_of_list ds) [] n r) w) = Some BulkIndexError"
proof (induction "length ds" arbitrary: ds w rule: less_induct)
  case less
  then have "ds \<noteq> []" by auto
  with next_chunk_gen_of_list [of n "[]" ds] obtain a as rest where
    nc: "next_chunk n [] (gen_of_list ds) = (Inr (a # as), gen_of_list rest)"
    and split: "(a # as) @ rest = ds"
    by (auto simp: neq_Nil_conv)
  let ?w' = "w\<lparr>received := received w @ map (\<lambda>d. (d, r)) (a # as)\<rparr>"
  show ?case
  proof (cases "list_all (accepts w) (a # as)")
    case False
    show ?thesis
      by (simp only: deque0_chunk_refused [OF nc False] fst_conv)
  next
    case True
    then have "\<not> list_all (accepts ?w') rest"
      using less.prems split by auto
    moreover have "length rest < length ds"
      using split by auto
    ultimately have "fst (deque0 (LazyResults (gen_of_list rest) [] n r) ?w') = Some BulkIndexError"
      by (rule less.hyps [rotated])
    then show ?thesis
      by (simp only: deque0_chunk_accepted [OF nc True])
  qed
qed

lemma next_result_sent: "sent (snd (next_result it w)) = sent w"
  by (simp add: next_result_def Let_def split: list.splits prod.splits sum.splits)

lemma deque0_sent: "sent (snd (deque0 it w)) = sent w"
proof (induction it w rule: deque0.induct)
  case (1 it w)
  obtain x w' where nr: "next_result it w = (x, w')"
    by (cases "next_result it w")
  then have w': "sent w' = sent w"
    using next_result_sent [of it w] by simp
  show ?case
  proof (cases x)
    case (Inl e)
    with nr w' show ?thesis by (subst deque0.simps) simp
  next
    case (Inr y)
    show ?thesis
    proof (cases y)
      case None
      with nr Inr w' show ?thesis by (subst deque0.simps) simp
    next
      case (Some z)
      obtain result it' where z: "z = (result, it')" by (cases z)
      have "sent (snd (deque0 it' w')) = sent w'"
        using "1.IH" [OF nr [symmetric] Inr Some z [symmetric]] .
      with nr Inr Some z w' show ?thesis by (subst deque0.simps) simp
    qed
  qed
qed

lemma parallel_bulk_deque0:
  "parallel_bulk doc actions kwargs w =
     (case deque0 (LazyResults actions []
              (case kw_chunk_size kwargs of None \<Rightarrow> queryset_pagination doc | Some n \<Rightarrow> n)
              (kw_refresh kwargs)) w of
        (Some e, w') \<Rightarrow> (Inl e, w')
      | (None, w') \<Rightarrow> (Inr (1, []), w'))"
  by (simp add: parallel_bulk_def helpers_parallel_bulk_def Let_def split: option.splits)

lemma parallel_bulk_sent: "sent (snd (parallel_bulk doc actions kwargs w)) = sent w"
proof -
  let ?it = "LazyResults actions []
      (case kw_chunk_size kwargs of None \<Rightarrow> queryset_pagination doc | Some n \<Rightarrow> n)
      (kw_refresh kwargs)"
  obtain e w' where d: "deque0 ?it w = (e, w')"
    by (cases "deque0 ?it w")
  then have "sent w' = sent w"
    using deque0_sent [of ?it w] by simp
  then show ?thesis
    by (simp add: parallel_bulk_deque0 d split: option.splits)
qed

text \<open>
  C4, as amended. Setting up the parallel submission takes nothing from the action stream.
  When the engine accepts every one of the K descriptors, \<^verbatim>\<open>parallel_bulk\<close> leaves the
  engine having received exactly these K actions, in order, after what it had received
  before, and returns \<open>(1, [])\<close>. When the engine refuses one of them, the call raises
  \<^verbatim>\<open>BulkIndexError\<close> and returns nothing.
\<close>

theorem parallel_bulk_drains:
  "pending (helpers_parallel_bulk (gen_of_list ds) kwargs) = gen_of_list ds
   \<and> buffered (helpers_parallel_bulk (gen_of_list ds) kwargs) = []
   \<and> (list_all (accepts w) ds \<longrightarrow>
        parallel_bulk doc (gen_of_list ds) kwargs w =
          (Inr (1, []), w\<lparr>received := received w @ map (\<lambda>d. (d, kw_refresh kwargs)) ds\<rparr>)
        \<and> length (received (snd (parallel_bulk doc (gen_of_list ds) kwargs w)))
            = length (received w) + length ds)
   \<and> (\<not> list_all (accepts w) ds \<longrightarrow>
        fst (parallel_bulk doc (gen_of_list ds) kwargs w) = Inl BulkIndexError)"
proof -
  have a: "parallel_bulk doc (gen_of_list ds) kwargs w =
          (Inr (1, []), w\<lparr>received := received w @ map (\<lambda>d. (d, kw_refresh kwargs)) ds\<rparr>)"
    if "list_all (accepts w) ds"
    by (simp add: parallel_bulk_deque0 deque0_all_accepted [OF that])
  have b: "fst (parallel_bulk doc (gen_of_list ds) kwargs w) = Inl BulkIndexError"
    if "\<not> list_all (accepts w) ds"
    using deque0_refused [OF that,
        of "case kw_chunk_size kwargs of None \<Rightarrow> queryset_pagination doc | Some n \<Rightarrow> n"
          "kw_refresh kwargs"]
    by (auto simp: parallel_bulk_deque0 split: prod.splits option.splits)
  show ?thesis
    using a b by (simp add: helpers_parallel_bulk_def)
qed

theorem parallel_bulk_drains_witness:
  "list_all (accepts fresh_world)
     [[(''_op_type'', Str ''delete''), (''_id'', Ident 1)],
      [(''_op_type'', Str ''delete''), (''_id'', Ident 2)],
      [(''_op_type'', Str ''delete''), (''_id'', Ident 3)]]
   \<and> parallel_bulk book_document
       (gen_of_list
          [[(''_op_type'', Str ''delete''), (''_id'', Ident 1)],
           [(''_op_type'', Str ''delete''), (''_id'', Ident 2)],
           [(''_op_type'', Str ''delete''), (''_id'', Ident 3)]])
       \<lparr>kw_refresh = None, kw_chunk_size = None\<rparr> fresh_world
     = (Inr (1, []),
        fresh_world\<lparr>received :=
          [([(''_op_type'', Str ''delete''), (''_id'', Ident 1)], None),
           ([(''_op_type'', Str ''delete''), (''_id'', Ident 2)], None),
           ([(''_op_type'', Str ''delete''), (''_id'', Ident 3)], None)]\<rparr>)"
proof -
  have acc: "list_all (accepts fresh_world)
     [[(''_op_type'', Str ''delete''), (''_id'', Ident 1)],
      [(''_op_type'', Str ''delete''), (''_id'', Ident 2)],
      [(''_op_type'', Str ''delete''), (''_id'', Ident 3)]]"
    by (simp add: fresh_world_def)
  then show ?thesis
    using parallel_bulk_drains [of
        "[[(''_op_type'', Str ''delete''), (''_id'', Ident 1)],
          [(''_op_type'', Str ''delete''), (''_id'', Ident 2)],
          [(''_op_type'', Str ''delete''), (''_id'', Ident 3)]]"
        "\<lparr>kw_refresh = None, kw_chunk_size = None\<rparr>" fresh_world book_document]
    by (simp add: fresh_world_def)
qed

text \<open>
  The claim as stated gives the return value for any verdict of the engine. On an engine
  that refuses the items, with chunks of two, three actions end in \<^verbatim>\<open>BulkIndexError\<close>
  after the first chunk has been submitted; the third action never reaches the engine.
\<close>

theorem parallel_bulk_drains_counterexample:
  "fst (parallel_bulk book_document
       (gen_of_list
          [[(''_op_type'', Str ''index''), (''_id'', Ident 1)],
           [(''_op_type'', Str ''index''), (''_id'', Ident 2)],
           [(''_op_type'', Str ''index''), (''_id'', Ident 3)]])
       \<lparr>kw_refresh = None, kw_chunk_size = None\<rparr> refusing_world)
     = Inl BulkIndexError
   \<and> received (snd (parallel_bulk book_document
       (gen_of_list
          [[(''_op_type'', Str ''index''), (''_id'', Ident 1)],
           [(''_op_type'', Str ''index''), (''_id'', Ident 2)],
           [(''_op_type'', Str ''index''), (''_id'', Ident 3)]])
       \<lparr>kw_refresh = None, kw_chunk_size = None\<rparr> refusing_world))
     = [([(''_op_type'', Str ''index''), (''_id'', Ident 1)], None),
        ([(''_op_type'', Str ''index''), (''_id'', Ident 2)], None)]"
  by code_simp

text \<open>
  C5, as amended. A sequential submission that returns sends the signal once, after the
  signals sent before, with the class of the document, the document, the actions it was
  given and the response it returns. A parallel submission sends no signal.
\<close>

theorem bulk_signal:
  "(raised actions = None \<longrightarrow>
      sent (snd (bulk doc actions kwargs w)) =
        sent w @ [\<lparr>sig_sender = doc_class doc, sig_instance = doc, sig_actions = actions,
                   sig_response = (length (filter (accepts w) (yielded actions)),
                                   filter (\<lambda>d. \<not> accepts w d) (yielded actions))\<rparr>]
      \<and> fst (bulk doc actions kwargs w) =
          Inr (length (filter (accepts w) (yielded actions)),
               filter (\<lambda>d. \<not> accepts w d) (yielded actions)))
   \<and> sent (snd (parallel_bulk doc actions kwargs w)) = sent w"
  by (simp add: bulk_def helpers_bulk_def parallel_bulk_sent)

theorem bulk_signal_witness:
  "sent (snd (bulk book_document (gen_of_list [[(''_op_type'', Str ''delete'')]])
       \<lparr>kw_refresh = None, kw_chunk_size = None\<rparr> fresh_world))
     = [\<lparr>sig_sender = ''BookDocument'', sig_instance = book_document,
         sig_actions = gen_of_list [[(''_op_type'', Str ''delete'')]],
         sig_response = (1, [])\<rparr>]"
proof -
  have "raised (gen_of_list [[(''_op_type'', Str ''delete'') :: string \<times> (int, string) cell]]) = None"
    by simp
  then show ?thesis
    using bulk_signal [of "gen_of_list [[(''_op_type'', Str ''delete'')]]" book_document
        "\<lparr>kw_refresh = None, kw_chunk_size = None\<rparr>" fresh_world]
    by (simp add: fresh_world_def book_document_def)
qed

text \<open>
  The claim as stated fails for the parallel strategy: after a parallel submission of one
  action the engine has received it and no signal has been sent.
\<close>

theorem bulk_signal_counterexample:
  "sent (snd (parallel_bulk book_document (gen_of_list [[(''_op_type'', Str ''delete'')]])
       \<lparr>kw_refresh = None, kw_chunk_size = None\<rparr> fresh_world)) = []
   \<and> received (snd (parallel_bulk book_document (gen_of_list [[(''_op_type'', Str ''delete'')]])
       \<lparr>kw_refresh = None, kw_chunk_size = None\<rparr> fresh_world))
     = [([(''_op_type'', Str ''delete'')], None)]"
  by code_simp

text \<open>
  C10. Updating with one model instance is updating with the list that holds just that
  instance: the same result and the same effect on the engine and the signals.
\<close>

theorem update_single_instance:
  "update doc (Model m) action kwargs w = update doc (Iterable [m]) action kwargs w"
  by (simp add: update_def)

section \<open>Paging through the records\<close>

lemma pages_step:
  assumes "1 \<le> (P::nat)" and "i < (N::nat)"
  shows "(N - i + P - 1) div P = Suc ((N - min (i + P) N + P - 1) div P)"
proof (cases "i + P \<le> N")
  case True
  then have "N - i + P - 1 = (N - (i + P) + P - 1) + P"
    using assms by simp
  then have "(N - i + P - 1) div P = Suc ((N - (i + P) + P - 1) div P)"
    using assms(1) by (metis div_add_self2 not_one_le_zero Suc_eq_plus1)
  then show ?thesis using True by (simp add: min_def)
next
  case False
  then have "P \<le> N - i + P - 1" "N - i + P - 1 < P * Suc 1"
    using assms by simp_all
  then have "(N - i + P - 1) div P = 1"
    by (intro div_nat_eqI) simp_all
  moreover have "(P - 1) div P = 0"
    using assms(1) by simp
  ultimately show ?thesis using False by (simp add: min_def)
qed

lemma indexing_loop_pages:
  assumes "1 \<le> P" and "i \<le> length rs"
  shows "indexing_loop P rs (length rs) i i (take i rs) k
           = Some (rs, k + (length rs - i + P - 1) div P)"
  using assms(2)
proof (induction "length rs - i" arbitrary: i k rule: less_induct)
  case less
  show ?case
  proof (cases "i < length rs")
    case False
    then have "i = length rs" using less.prems by simp
    then show ?thesis
      using assms(1) by (subst indexing_loop.simps) simp
  next
    case True
    let ?i' = "min (i + P) (length rs)"
    have len: "i + length (take P (drop i rs)) = ?i'"
      using True by (auto simp: min_def)
    have out: "take i rs @ take P (drop i rs) = take ?i' rs"
      by (simp add: min_def take_add [symmetric])
    have "length rs - ?i' < length rs - i"
      using True assms(1) by (auto simp: min_def)
    then have IH: "indexing_loop P rs (length rs) ?i' ?i' (take ?i' rs) (Suc k)
           = Some (rs, Suc k + (length rs - ?i' + P - 1) div P)"
      by (rule less.hyps) simp
    have "indexing_loop P rs (length rs) i i (take i rs) k
            = indexing_loop P rs (length rs) ?i' ?i' (take ?i' rs) (Suc k)"
      using True by (subst indexing_loop.simps) (simp only: len out if_True)
    then show ?thesis
      using IH pages_step [OF assms(1) True] by simp
  qed
qed

lemma count_list_insort_key: "count_list (insort_key f x xs) y = count_list (x # xs) y"
  by (induction xs) auto

lemma count_list_sort_key: "count_list (sort_key f xs) y = count_list xs y"
  by (induction xs) (simp_all add: count_list_insort_key)

lemma pages_ceiling:
  assumes "1 \<le> (P::nat)"
  shows "(N::nat) \<le> ((N + P - 1) div P) * P \<and> ((N + P - 1) div P) * P < N + P"
proof -
  have "((N + P - 1) div P) * P \<le> N + P - 1"
    by simp
  moreover have "N + P - 1 < P + ((N + P - 1) div P) * P"
    using assms by (intro dividend_less_div_times) simp
  ultimately show ?thesis
    using assms by linarith
qed

lemma indexing_loop_from_start:
  assumes "1 \<le> P"
  shows "indexing_loop P rs (length rs) 0 0 [] 0 = Some (rs, (length rs + P - 1) div P)"
  using indexing_loop_pages [OF assms, of 0 rs 0] by simp

text \<open>
  C6, as amended. With a page size of at least one the generator ends, and it yields every
  record of the record set exactly once, N records for a set of N, in k slices where k is
  N divided by the page size, rounded up. The records come in primary-key order when the
  record set is not count-limited; a count-limited record set is sliced already and comes
  in the order of the query itself.
\<close>

theorem get_indexing_queryset_pages:
  assumes "1 \<le> queryset_pagination doc"
  shows "\<exists>ys k. get_indexing_queryset doc table f e cnt = Some (ys, k)
       \<and> length ys = length (rows (get_queryset table f e cnt))
       \<and> (\<forall>r. count_list ys r = count_list (rows (get_queryset table f e cnt)) r)
       \<and> (cnt = None \<longrightarrow> sorted (map pk ys))
       \<and> (cnt \<noteq> None \<longrightarrow> ys = rows (get_queryset table f e cnt))
       \<and> length ys \<le> k * queryset_pagination doc
       \<and> k * queryset_pagination doc < length ys + queryset_pagination doc"
proof (cases cnt)
  case None
  let ?rs = "rows (get_queryset table f e None)"
  let ?P = "queryset_pagination doc"
  have "\<not> is_sliced (get_queryset table f e None)"
    by (simp add: get_queryset_def Let_def split: option.splits)
  then have "get_indexing_queryset doc table f e None
           = Some (sort_key pk ?rs, (length (sort_key pk ?rs) + ?P - 1) div ?P)"
    using indexing_loop_from_start [OF assms, of "sort_key pk ?rs"]
    by (simp add: get_indexing_queryset_def Let_def)
  moreover have "sorted (map pk (sort_key pk ?rs))"
    by simp
  ultimately show ?thesis
    using None pages_ceiling [OF assms, of "length (sort_key pk ?rs)"]
    by (simp add: count_list_sort_key)
next
  case (Some n)
  let ?rs = "rows (get_queryset table f e (Some n))"
  let ?P = "queryset_pagination doc"
  have "is_sliced (get_queryset table f e (Some n))"
    by (simp add: get_queryset_def Let_def split: option.splits)
  then have "get_indexing_queryset doc table f e (Some n)
           = Some (?rs, (length ?rs + ?P - 1) div ?P)"
    using indexing_loop_from_start [OF assms, of ?rs]
    by (simp add: get_indexing_queryset_def Let_def)
  then show ?thesis
    using Some pages_ceiling [OF assms, of "length ?rs"] by simp
qed

theorem get_indexing_queryset_pages_witness:
  "1 \<le> queryset_pagination book_document
   \<and> get_indexing_queryset book_document
        [\<lparr>pk = 3, columns = ''Ubik''\<rparr>, \<lparr>pk = 1, columns = ''Dune''\<rparr>, \<lparr>pk = 2, columns = ''Emma''\<rparr>]
        None None None
      = Some ([\<lparr>pk = 1, columns = ''Dune''\<rparr>, \<lparr>pk = 2, columns = ''Emma''\<rparr>,
               \<lparr>pk = 3, columns = ''Ubik''\<rparr>], 2)"
proof -
  have P: "1 \<le> queryset_pagination book_document"
    by (simp add: book_document_def)
  have rs: "rows (get_queryset
        [\<lparr>pk = 3, columns = ''Ubik''\<rparr>, \<lparr>pk = 1, columns = ''Dune''\<rparr>, \<lparr>pk = 2, columns = ''Emma''\<rparr>]
        None None None)
      = [\<lparr>pk = 3, columns = ''Ubik''\<rparr>, \<lparr>pk = 1, columns = ''Dune''\<rparr>, \<lparr>pk = 2, columns = ''Emma''\<rparr>]"
    by (simp add: get_queryset_def)
  from get_indexing_queryset_pages [OF P, of
      "[\<lparr>pk = 3, columns = ''Ubik''\<rparr>, \<lparr>pk = 1, columns = ''Dune''\<rparr>, \<lparr>pk = 2, columns = ''Emma''\<rparr>]"
      None None None]
  obtain ys k where
    "get_indexing_queryset book_document
        [\<lparr>pk = 3, columns = ''Ubik''\<rparr>, \<lparr>pk = 1, columns = ''Dune''\<rparr>, \<lparr>pk = 2, columns = ''Emma''\<rparr>]
        None None None = Some (ys, k)"
    by blast
  moreover have "get_indexing_queryset book_document
        [\<lparr>pk = 3, columns = ''Ubik''\<rparr>, \<lparr>pk = 1, columns = ''Dune''\<rparr>, \<lparr>pk = 2, columns = ''Emma''\<rparr>]
        None None None
      = Some ([\<lparr>pk = 1, columns = ''Dune''\<rparr>, \<lparr>pk = 2, columns = ''Emma''\<rparr>,
               \<lparr>pk = 3, columns = ''Ubik''\<rparr>], 2)"
    by (simp add: get_indexing_queryset_def get_queryset_def book_document_def
        indexing_loop.simps)
  ultimately show ?thesis
    using P by simp
qed

text \<open>
  The claim as stated fails for a count-limited record set, which is not re-ordered: the
  two records come as the query returns them, primary key 2 before primary key 1.
\<close>

theorem get_indexing_queryset_pages_counterexample:
  "get_indexing_queryset book_document
        [\<lparr>pk = 2, columns = ''Emma''\<rparr>, \<lparr>pk = 1, columns = ''Dune''\<rparr>] None None (Some 2)
      = Some ([\<lparr>pk = 2, columns = ''Emma''\<rparr>, \<lparr>pk = 1, columns = ''Dune''\<rparr>], 1)
   \<and> \<not> sorted (map pk [\<lparr>pk = 2, columns = ''Emma''\<rparr>, \<lparr>pk = 1, columns = ''Dune''\<rparr>])"
  by (simp add: get_indexing_queryset_def get_queryset_def book_document_def
      indexing_loop.simps)

end
